theory Spec2Isabelle
  imports Main "HOL-Library.Word" "HOL-Library.Sublist"
begin

unbundle bit_operations_syntax

section \<open>The tunnel relay of simple\_vpn\_server.c and simple\_vpn\_client.c\<close>

text \<open>
  Both programs share \<open>create_tun_device\<close>, \<open>xor_crypt\<close> and \<open>vpn_event_loop\<close>
  line for line (only the name of the transport descriptor and the log messages
  differ), so one embedding of the loop serves both roles. The two \<open>main\<close>
  functions differ in their setup and are embedded separately.
\<close>

subsection \<open>Constants and machine types\<close>

type_synonym byte = "8 word"
type_synonym uint16 = "16 word"

definition BUFFER_SIZE :: nat where
  "BUFFER_SIZE = 2048"

definition XOR_KEY :: byte where
  "XOR_KEY = 0x42"

subsection \<open>xor\_crypt\<close>

text \<open>
  \<^verbatim>\<open>for (int i = 0; i < len; i++) data[i] ^= key;\<close>
  The counter never passes \<open>len\<close>, so an unbounded \<open>int\<close> behaves as the C
  \<open>int\<close> does. Both call sites pass \<open>len = nread\<close> with
  \<open>0 \<le> nread \<le> length data\<close>.
\<close>

function xor_crypt_loop :: "byte list \<Rightarrow> int \<Rightarrow> int \<Rightarrow> byte \<Rightarrow> byte list" where
  "xor_crypt_loop data i len key =
     (if i < len
      then xor_crypt_loop (data[nat i := (data ! nat i) XOR key]) (i + 1) len key
      else data)"
  by pat_completeness auto
termination
  by (relation "measure (\<lambda>(data, i, len, key). nat (len - i))") auto

declare xor_crypt_loop.simps [simp del]

definition xor_crypt :: "byte list \<Rightarrow> int \<Rightarrow> byte \<Rightarrow> byte list" where
  "xor_crypt data len key = xor_crypt_loop data 0 len key"

subsection \<open>Byte order of the length prefix\<close>

text \<open>
  \<open>htons x\<close> is the object representation (the two bytes in memory order) of the
  \<open>uint16_t\<close> that holds \<^verbatim>\<open>htons(x)\<close>: most significant byte first, whatever the
  host's byte order. \<open>ntohs\<close> reads two bytes of memory back the same way.
\<close>

definition htons :: "uint16 \<Rightarrow> byte list" where
  "htons x = [ucast (drop_bit 8 x), ucast x]"

definition ntohs :: "byte list \<Rightarrow> uint16" where
  "ntohs m = push_bit 8 (ucast (m ! 0)) OR ucast (m ! 1)"

subsection \<open>The environment: descriptors, kernel queues and the system-call log\<close>

datatype fd = TunFd | SockFd | ListenFd

text \<open>What successive \<^verbatim>\<open>read(tun_fd, ...)\<close> calls will find: a packet or an error.\<close>

datatype tun_ev = TunErr | TunPkt "byte list"

text \<open>
  What the transport delivers: the byte stream arrives in chunks (the bytes
  available when a \<open>read\<close> returns), possibly an error; the end of the list
  is the peer's orderly shutdown (\<open>read\<close> returns 0).
\<close>

datatype sock_ev = SockErr | SockData "byte list"

text \<open>
  One entry per system call of the relay: descriptor, byte count asked, return
  value. \<open>Sigpipe f n\<close> is a \<open>write\<close> of \<open>n\<close> bytes on \<open>f\<close> that did not
  return: the peer had closed the connection and the kernel raised SIGPIPE.
\<close>

datatype syscall =
    Select int
  | Read fd nat int
  | Write fd nat int
  | Sigpipe fd nat
  | Close fd

text \<open>
  The decisions of the environment in one iteration of the loop: the return
  value of \<open>select\<close> and the descriptors it marks readable, whether each
  \<open>write\<close> succeeds (a blocking \<open>write\<close> transfers its whole buffer or
  fails), and the indeterminate second byte of the uninitialised local
  \<^verbatim>\<open>uint16_t packet_len\<close>. When a \<open>write\<close> to the transport does not
  succeed, \<open>broken_pipe\<close> tells how: the peer has closed the connection
  (\<open>EPIPE\<close>), so the kernel raises SIGPIPE, or the call returns -1 for another
  reason. Neither program ignores or handles SIGPIPE, so its default action
  ends the process inside \<open>write\<close>.
\<close>

record choices =
  select_ret :: int
  tun_isset :: bool
  sock_isset :: bool
  write_len_ok :: bool
  write_data_ok :: bool
  write_tun_ok :: bool
  broken_pipe :: bool
  junk :: byte

text \<open>
  \<open>buffer\<close> is the local array \<^verbatim>\<open>unsigned char buffer[BUFFER_SIZE]\<close>;
  \<open>tun_in\<close> and \<open>sock_in\<close> are what the two descriptors will deliver;
  \<open>sock_out\<close> and \<open>tun_out\<close> are what has been written to them so far
  (a byte stream, and a sequence of packets); \<open>log\<close> is the trace of calls.
\<close>

record world =
  buffer :: "byte list"
  tun_in :: "tun_ev list"
  sock_in :: "sock_ev list"
  sock_out :: "byte list"
  tun_out :: "byte list list"
  log :: "syscall list"

datatype reason =
    SelectFailed
  | TunReadFailed
  | SendLenFailed
  | SendDataFailed
  | Disconnected
  | TunWriteFailed

text \<open>
  \<open>Continue\<close>: the loop goes on; \<open>Break r\<close>: the loop was left by
  \<^verbatim>\<open>break\<close>; \<open>Fault\<close>: a \<open>read\<close> stored bytes past the end of
  \<open>buffer\<close>, after which C defines no behaviour; \<open>Killed\<close>: SIGPIPE ended
  the process inside a \<open>write\<close> to the transport.
\<close>

datatype status = Continue | Break reason | Fault | Killed

subsection \<open>The system calls of the loop\<close>

text \<open>
  \<^verbatim>\<open>read(tun_fd, buffer, BUFFER_SIZE)\<close>: one packet, cut to the size asked.
  The loop calls it only when \<open>tun_in\<close> is not empty.
\<close>

definition read_tun :: "world \<Rightarrow> int \<times> world" where
  "read_tun w =
     (case tun_in w of
        TunPkt p # rest \<Rightarrow>
          (let d = take BUFFER_SIZE p in
           (int (length d),
            w\<lparr>buffer := d @ drop (length d) (buffer w), tun_in := rest,
              log := log w @ [Read TunFd BUFFER_SIZE (int (length d))]\<rparr>))
      | _ \<Rightarrow> (- 1, w\<lparr>tun_in := tl (tun_in w), log := log w @ [Read TunFd BUFFER_SIZE (- 1)]\<rparr>))"

text \<open>
  \<^verbatim>\<open>read(fd, dst, count)\<close> on the transport: returns the bytes read (at most
  \<open>count\<close>, at most what is available), 0 at the end of the stream or for
  \<open>count = 0\<close>, -1 on error.
\<close>

definition read_sock :: "nat \<Rightarrow> world \<Rightarrow> int \<times> byte list \<times> world" where
  "read_sock count w =
     (if count = 0 then (0, [], w\<lparr>log := log w @ [Read SockFd 0 0]\<rparr>)
      else case sock_in w of
        [] \<Rightarrow> (0, [], w\<lparr>log := log w @ [Read SockFd count 0]\<rparr>)
      | SockErr # rest \<Rightarrow>
          (- 1, [], w\<lparr>sock_in := rest, log := log w @ [Read SockFd count (- 1)]\<rparr>)
      | SockData c # rest \<Rightarrow>
          (if length c \<le> count
           then (int (length c), c,
                 w\<lparr>sock_in := rest, log := log w @ [Read SockFd count (int (length c))]\<rparr>)
           else (int count, take count c,
                 w\<lparr>sock_in := SockData (drop count c) # rest,
                   log := log w @ [Read SockFd count (int count)]\<rparr>)))"

text \<open>
  \<^verbatim>\<open>write(fd, src, count)\<close> on the transport: \<open>Some r\<close> is the return value
  \<open>r\<close>; \<open>None\<close> means that the call never returned, the process being ended
  by SIGPIPE.
\<close>

definition write_sock :: "bool \<Rightarrow> bool \<Rightarrow> byte list \<Rightarrow> world \<Rightarrow> int option \<times> world" where
  "write_sock ok pipe bs w =
     (if ok
      then (Some (int (length bs)),
            w\<lparr>sock_out := sock_out w @ bs,
              log := log w @ [Write SockFd (length bs) (int (length bs))]\<rparr>)
      else if pipe
      then (None, w\<lparr>log := log w @ [Sigpipe SockFd (length bs)]\<rparr>)
      else (Some (- 1), w\<lparr>log := log w @ [Write SockFd (length bs) (- 1)]\<rparr>))"

text \<open>\<^verbatim>\<open>write(tun_fd, src, count)\<close>: the interface is a device, no signal comes from it.\<close>

definition write_tun :: "bool \<Rightarrow> byte list \<Rightarrow> world \<Rightarrow> int \<times> world" where
  "write_tun ok bs w =
     (if ok
      then (int (length bs),
            w\<lparr>tun_out := tun_out w @ [bs],
              log := log w @ [Write TunFd (length bs) (int (length bs))]\<rparr>)
      else (- 1, w\<lparr>log := log w @ [Write TunFd (length bs) (- 1)]\<rparr>))"

subsection \<open>vpn\_event\_loop\<close>

text \<open>
  Interface to transport, after the read: encrypt \<open>nread\<close> bytes of the buffer in
  place, send \<^verbatim>\<open>htons(nread)\<close>, send the \<open>nread\<close> bytes.
\<close>

definition send_frame :: "choices \<Rightarrow> int \<Rightarrow> world \<Rightarrow> status \<times> world" where
  "send_frame ev nread w =
     (let w1 = w\<lparr>buffer := xor_crypt (buffer w) nread XOR_KEY\<rparr>;
          packet_len = htons (word_of_int nread);
          (r1, w2) = write_sock (write_len_ok ev) (broken_pipe ev) packet_len w1
      in case r1 of
           None \<Rightarrow> (Killed, w2)
         | Some n1 \<Rightarrow>
             if n1 < 0 then (Break SendLenFailed, w2)
             else
               (let (r2, w3) = write_sock (write_data_ok ev) (broken_pipe ev)
                                 (take (nat nread) (buffer w2)) w2
                in case r2 of
                     None \<Rightarrow> (Killed, w3)
                   | Some n2 \<Rightarrow>
                       if n2 < 0 then (Break SendDataFailed, w3) else (Continue, w3)))"

definition tun_to_sock :: "choices \<Rightarrow> world \<Rightarrow> status \<times> world" where
  "tun_to_sock ev w =
     (let (nread, w1) = read_tun w
      in if nread < 0 then (Break TunReadFailed, w1) else send_frame ev nread w1)"

text \<open>
  Transport to interface. The first \<open>read\<close> asks for the two bytes of
  \<open>packet_len\<close>; when it returns one byte only, the second byte of the variable
  keeps its indeterminate content (\<open>junk\<close>). The second \<open>read\<close> asks for
  \<open>packet_len\<close> bytes into \<open>buffer\<close>, which holds \<open>BUFFER_SIZE\<close>.
\<close>

definition sock_to_tun :: "choices \<Rightarrow> world \<Rightarrow> status \<times> world" where
  "sock_to_tun ev w =
     (let (n1, hdr, w1) = read_sock 2 w
      in if n1 \<le> 0 then (Break Disconnected, w1)
         else
           (let packet_len = ntohs (take 2 (hdr @ [junk ev]));
                (nread, dat, w2) = read_sock (unat packet_len) w1
            in if int BUFFER_SIZE < nread then (Fault, w2)
               else
                 (let w3 = w2\<lparr>buffer := dat @ drop (length dat) (buffer w2)\<rparr>
                  in if nread \<le> 0 then (Break Disconnected, w3)
                     else
                       (let w4 = w3\<lparr>buffer := xor_crypt (buffer w3) nread XOR_KEY\<rparr>;
                            (r, w5) = write_tun (write_tun_ok ev) (take (nat nread) (buffer w4)) w4
                        in if r < 0 then (Break TunWriteFailed, w5) else (Continue, w5)))))"

text \<open>
  One pass through the body of \<^verbatim>\<open>while (1)\<close>. \<^verbatim>\<open>FD_ISSET(tun_fd, ...)\<close>
  holds when \<open>select\<close> marks the interface and something is queued on it.
\<close>

definition loop_iteration :: "choices \<Rightarrow> world \<Rightarrow> status \<times> world" where
  "loop_iteration ev w =
     (let w0 = w\<lparr>log := log w @ [Select (select_ret ev)]\<rparr>
      in if select_ret ev < 0 then (Break SelectFailed, w0)
         else
           (let (st, w1) = (if tun_isset ev \<and> tun_in w0 \<noteq> [] then tun_to_sock ev w0
                            else (Continue, w0))
            in if st \<noteq> Continue then (st, w1)
               else if sock_isset ev then sock_to_tun ev w1
               else (Continue, w1)))"

text \<open>
  The loop, driven by the environment's decisions, one per iteration. When they
  run out the loop is still inside \<open>select\<close>: the result is \<open>Continue\<close>.
\<close>

fun vpn_event_loop :: "choices list \<Rightarrow> world \<Rightarrow> status \<times> world" where
  "vpn_event_loop [] w = (Continue, w)"
| "vpn_event_loop (ev # evs) w =
     (case loop_iteration ev w of
        (Continue, w') \<Rightarrow> vpn_event_loop evs w'
      | (st, w') \<Rightarrow> (st, w'))"

subsection \<open>Setup and main\<close>

text \<open>
  What the environment answers to the calls made before the loop. The messages
  printed and the wait for the Enter key are left out: they touch neither
  descriptor.
\<close>

record startup =
  argc :: int
  open_ok :: bool
  ioctl_ok :: bool
  socket_ok :: bool
  pton_ok :: bool
  bind_ok :: bool
  listen_ok :: bool
  accept_ok :: bool
  connect_ok :: bool

text \<open>Each setup function returns whether it produced a descriptor, and the calls to \<open>close\<close> it made.\<close>

definition create_tun_device :: "startup \<Rightarrow> bool \<times> syscall list" where
  "create_tun_device s =
     (if \<not> open_ok s then (False, [])
      else if \<not> ioctl_ok s then (False, [Close TunFd])
      else (True, []))"

definition create_server_socket :: "startup \<Rightarrow> bool \<times> syscall list" where
  "create_server_socket s =
     (if \<not> socket_ok s then (False, [])
      else if \<not> bind_ok s then (False, [Close ListenFd])
      else if \<not> listen_ok s then (False, [Close ListenFd])
      else (True, []))"

definition connect_to_server :: "startup \<Rightarrow> bool \<times> syscall list" where
  "connect_to_server s =
     (if \<not> socket_ok s then (False, [])
      else if \<not> pton_ok s then (False, [Close SockFd])
      else if \<not> connect_ok s then (False, [Close SockFd])
      else (True, []))"

text \<open>
  How a process ends: \<open>Exited c w\<close> with exit status \<open>c\<close>; \<open>Running w\<close> when
  the loop has not been left; \<open>Undefined w\<close> after a \<open>Fault\<close>;
  \<open>Signalled w\<close> when SIGPIPE ended it: no statement after the \<open>write\<close> is
  run, neither the \<open>break\<close> nor the calls to \<open>close\<close> nor \<open>return 0\<close>.
\<close>

datatype proc = Exited int world | Running world | Undefined world | Signalled world

definition closing :: "syscall list \<Rightarrow> world \<Rightarrow> world" where
  "closing cs w = w\<lparr>log := log w @ cs\<rparr>"

definition server_main :: "startup \<Rightarrow> choices list \<Rightarrow> world \<Rightarrow> proc" where
  "server_main s evs w =
     (let (tun_fd, c1) = create_tun_device s
      in if \<not> tun_fd then Exited 1 (closing c1 w)
         else
           (let (server_fd, c2) = create_server_socket s
            in if \<not> server_fd then Exited 1 (closing (c1 @ c2 @ [Close TunFd]) w)
               else if \<not> accept_ok s
               then Exited 1 (closing (c1 @ c2 @ [Close ListenFd, Close TunFd]) w)
               else
                 (case vpn_event_loop evs (closing (c1 @ c2) w) of
                    (Continue, w') \<Rightarrow> Running w'
                  | (Fault, w') \<Rightarrow> Undefined w'
                  | (Killed, w') \<Rightarrow> Signalled w'
                  | (Break r, w') \<Rightarrow>
                      Exited 0 (closing [Close SockFd, Close ListenFd, Close TunFd] w'))))"

definition client_main :: "startup \<Rightarrow> choices list \<Rightarrow> world \<Rightarrow> proc" where
  "client_main s evs w =
     (if argc s \<noteq> 2 then Exited 1 w
      else
        (let (tun_fd, c1) = create_tun_device s
         in if \<not> tun_fd then Exited 1 (closing c1 w)
            else
              (let (server_fd, c2) = connect_to_server s
               in if \<not> server_fd then Exited 1 (closing (c1 @ c2 @ [Close TunFd]) w)
                  else
                    (case vpn_event_loop evs (closing (c1 @ c2) w) of
                       (Continue, w') \<Rightarrow> Running w'
                     | (Fault, w') \<Rightarrow> Undefined w'
                     | (Killed, w') \<Rightarrow> Signalled w'
                     | (Break r, w') \<Rightarrow>
                         Exited 0 (closing [Close SockFd, Close TunFd] w')))))"

subsection \<open>Notions used to state the properties\<close>

text \<open>The value of a two-byte unsigned big-endian field.\<close>

definition be16_value :: "byte list \<Rightarrow> nat" where
  "be16_value m = 256 * unat (m ! 0) + unat (m ! 1)"

text \<open>
  A call that failed: a negative return value, a \<open>read\<close> of the transport that
  returned 0 (the peer is gone), or a \<open>write\<close> that raised SIGPIPE.
\<close>

fun io_failure :: "syscall \<Rightarrow> bool" where
  "io_failure (Select r) = (r < 0)"
| "io_failure (Read SockFd n r) = (r \<le> 0)"
| "io_failure (Read f n r) = (r < 0)"
| "io_failure (Write f n r) = (r < 0)"
| "io_failure (Sigpipe f n) = True"
| "io_failure (Close f) = False"

definition clean :: "syscall list \<Rightarrow> bool" where
  "clean es = list_all (\<lambda>e. \<not> io_failure e) es"

text \<open>
  The calls made while the status \<open>st\<close> was reached: a \<open>break\<close> or the end by
  SIGPIPE comes right after a failed call, the first one that failed; otherwise
  no call failed.
\<close>

definition step_log :: "status \<Rightarrow> syscall list \<Rightarrow> bool" where
  "step_log st es =
     (case st of
        Break r \<Rightarrow> es \<noteq> [] \<and> clean (butlast es) \<and> io_failure (last es)
      | Killed \<Rightarrow> es \<noteq> [] \<and> clean (butlast es) \<and> io_failure (last es)
      | _ \<Rightarrow> clean es)"

text \<open>Every call of the setup succeeded.\<close>

definition server_ok :: "startup \<Rightarrow> bool" where
  "server_ok s \<longleftrightarrow>
     open_ok s \<and> ioctl_ok s \<and> socket_ok s \<and> bind_ok s \<and> listen_ok s \<and> accept_ok s"

definition client_ok :: "startup \<Rightarrow> bool" where
  "client_ok s \<longleftrightarrow>
     argc s = 2 \<and> open_ok s \<and> ioctl_ok s \<and> socket_ok s \<and> pton_ok s \<and> connect_ok s"

text \<open>
  Following the specification: the frame owed to the transport for what one read
  of the interface returned, a two-byte big-endian length followed by the
  ciphertext. A packet longer than the buffer is read cut to \<open>BUFFER_SIZE\<close>.
\<close>

fun frame_of :: "tun_ev \<Rightarrow> byte list" where
  "frame_of TunErr = []"
| "frame_of (TunPkt p) =
     (let d = take BUFFER_SIZE p
      in htons (word_of_nat (length d)) @ map (\<lambda>b. b XOR XOR_KEY) d)"

text \<open>The calls one read of the interface should give rise to: the read, then the two writes of its frame.\<close>

fun calls_of :: "tun_ev \<Rightarrow> syscall list" where
  "calls_of TunErr = [Read TunFd BUFFER_SIZE (- 1)]"
| "calls_of (TunPkt p) =
     (let n = length (take BUFFER_SIZE p)
      in [Read TunFd BUFFER_SIZE (int n), Write SockFd 2 2, Write SockFd n (int n)])"

text \<open>The calls of the direction interface to transport.\<close>

fun outbound :: "syscall \<Rightarrow> bool" where
  "outbound (Read TunFd n r) = True"
| "outbound (Write SockFd n r) = True"
| "outbound e = False"

text \<open>
  Between two worlds the events \<open>cs\<close> were taken from the interface:
  \<open>out_done\<close> when their frames were written in full, one after the other, each
  before the next read; \<open>out_part\<close> when the last frame may be cut short.
\<close>

definition out_part :: "world \<Rightarrow> world \<Rightarrow> tun_ev list \<Rightarrow> bool" where
  "out_part w w' cs \<longleftrightarrow>
     tun_in w = cs @ tun_in w' \<and>
     prefix (sock_out w') (sock_out w @ concat (map frame_of cs))"

definition out_done :: "world \<Rightarrow> world \<Rightarrow> tun_ev list \<Rightarrow> bool" where
  "out_done w w' cs \<longleftrightarrow>
     tun_in w = cs @ tun_in w' \<and>
     sock_out w' = sock_out w @ concat (map frame_of cs) \<and>
     filter outbound (log w') = filter outbound (log w) @ concat (map calls_of cs)"

definition send_failed :: "status \<Rightarrow> bool" where
  "send_failed st \<longleftrightarrow>
     st = Break SendLenFailed \<or> st = Break SendDataFailed \<or> st = Killed"

subsection \<open>Concrete inputs\<close>

definition ev_ex :: choices where
  "ev_ex = \<lparr>select_ret = 1, tun_isset = True, sock_isset = True, write_len_ok = True,
      write_data_ok = True, write_tun_ok = True, broken_pipe = False, junk = 0\<rparr>"

definition s_ok :: startup where
  "s_ok = \<lparr>argc = 2, open_ok = True, ioctl_ok = True, socket_ok = True, pton_ok = True,
     bind_ok = True, listen_ok = True, accept_ok = True, connect_ok = True\<rparr>"

definition s_bad :: startup where
  "s_bad = s_ok\<lparr>open_ok := False\<rparr>"

definition w_ex :: world where
  "w_ex = \<lparr>buffer = [1, 2, 3] @ replicate 2045 0, tun_in = [], sock_in = [], sock_out = [],
     tun_out = [], log = []\<rparr>"

definition w_short :: world where
  "w_short = w_ex\<lparr>sock_in := [SockData [0, 4, 0x43, 0x40], SockData [0x41, 0x46]]\<rparr>"

definition w_zero :: world where
  "w_zero = w_ex\<lparr>sock_in := [SockData [0, 0], SockData [0, 1, 0x43]]\<rparr>"

definition w_big :: world where
  "w_big = w_ex\<lparr>sock_in := [SockData [8, 1], SockData (replicate 2049 0)]\<rparr>"

definition w_send :: world where
  "w_send = w_ex\<lparr>tun_in := [TunPkt [1, 2, 3]]\<rparr>"

definition w_recv :: world where
  "w_recv = w_ex\<lparr>sock_in := [SockData [0, 3, 0x43, 0x40, 0x41]]\<rparr>"

definition p_big :: "byte list" where
  "p_big = replicate 2049 0"

definition w_send_big :: world where
  "w_send_big = w_ex\<lparr>tun_in := [TunPkt p_big]\<rparr>"

definition w_recv_big :: world where
  "w_recv_big = w_ex\<lparr>sock_in := [SockData (sock_out (snd (tun_to_sock ev_ex w_send_big)))]\<rparr>"

definition ev_pipe :: choices where
  "ev_pipe = ev_ex\<lparr>write_data_ok := False, broken_pipe := True\<rparr>"

definition ev_pipe_len :: choices where
  "ev_pipe_len = ev_ex\<lparr>write_len_ok := False, broken_pipe := True\<rparr>"

definition ev_sock :: choices where
  "ev_sock = ev_ex\<lparr>tun_isset := False\<rparr>"

definition w_split :: world where
  "w_split = w_ex\<lparr>sock_in := [SockData [0, 4, 0x43, 0x40],
                                SockData [0x41, 0x46, 0, 1, 0x43]]\<rparr>"

section \<open>Properties\<close>

subsection \<open>The cipher\<close>

lemma xor_twice: "((x::byte) XOR k) XOR k = x"
  by (rule bit_eqI) (auto simp: bit_xor_iff)

lemma xor_crypt_loop_length: "length (xor_crypt_loop data i len key) = length data"
proof (induction data i len key rule: xor_crypt_loop.induct)
  case (1 data i len key)
  then show ?case
    by (subst xor_crypt_loop.simps) simp
qed

lemma xor_crypt_loop_nth:
  "0 \<le> i \<Longrightarrow> j < length data \<Longrightarrow>
   xor_crypt_loop data i len key ! j =
     (if i \<le> int j \<and> int j < len then (data ! j) XOR key else data ! j)"
proof (induction data i len key rule: xor_crypt_loop.induct)
  case (1 data i len key)
  show ?case
  proof (cases "i < len")
    case True
    have "xor_crypt_loop data i len key =
          xor_crypt_loop (data[nat i := (data ! nat i) XOR key]) (i + 1) len key"
      using True by (subst xor_crypt_loop.simps) simp
    moreover have "xor_crypt_loop (data[nat i := (data ! nat i) XOR key]) (i + 1) len key ! j =
        (if i + 1 \<le> int j \<and> int j < len
         then (data[nat i := (data ! nat i) XOR key] ! j) XOR key
         else data[nat i := (data ! nat i) XOR key] ! j)"
      using "1.IH" [OF True] "1.prems" by simp
    ultimately show ?thesis
      using "1.prems" True by (auto simp: nth_list_update)
  next
    case False
    then have "xor_crypt_loop data i len key = data"
      by (subst xor_crypt_loop.simps) simp
    then show ?thesis using False by auto
  qed
qed

lemma xor_crypt_length: "length (xor_crypt data len key) = length data"
  by (simp add: xor_crypt_def xor_crypt_loop_length)

lemma xor_crypt_eq:
  "xor_crypt data len key = map (\<lambda>b. b XOR key) (take (nat len) data) @ drop (nat len) data"
  by (rule nth_equalityI)
     (auto simp: xor_crypt_def xor_crypt_loop_length xor_crypt_loop_nth nth_append min_def)

text \<open>
  C4. The cipher is an involution: for every buffer \<open>p\<close> and every key \<open>k\<close>,
  running \<open>xor_crypt\<close> over the whole of \<open>p\<close> twice gives \<open>p\<close> back, and one run
  keeps the length of the buffer.
\<close>

theorem xor_crypt_involution:
  "xor_crypt (xor_crypt p (int (length p)) k) (int (length p)) k = p \<and>
   length (xor_crypt p (int (length p)) k) = length p"
  by (simp add: xor_crypt_eq o_def xor_twice)

subsection \<open>The length prefix\<close>

lemma length_htons: "length (htons x) = 2"
  by (simp add: htons_def)

lemma unat16_less: "unat (x::uint16) < 65536"
  using unsigned_less [of x] by simp

lemma unat8_less: "unat (x::byte) < 256"
  using unsigned_less [of x] by simp

lemma be16_htons: "be16_value (htons x) = unat x"
proof -
  have a: "unat (ucast (drop_bit 8 x) :: byte) = unat x div 256"
    using unat16_less [of x]
    by (simp add: unsigned_ucast_eq unat_drop_bit_eq drop_bit_eq_div unat_div_distrib take_bit_eq_mod)
  have b: "unat (ucast x :: byte) = unat x mod 256"
    by (simp add: unsigned_ucast_eq take_bit_eq_mod)
  show ?thesis by (simp add: be16_value_def htons_def a b)
qed

lemma ntohs_htons: "ntohs (htons x) = x"
  apply (simp add: ntohs_def htons_def)
  apply (rule bit_eqI)
  apply (auto simp: bit_simps)
  done

lemma unat_ntohs: "unat (ntohs m) = be16_value m"
proof -
  let ?a = "push_bit 8 (ucast (m ! 0)) :: uint16" and ?b = "ucast (m ! 1) :: uint16"
  have "?a + ?b = ?a OR ?b"
    by (rule disjunctive_add) (auto simp: bit_simps dest: bit_imp_le_length)
  then have "unat (ntohs m) = unat (?a + ?b)"
    by (simp add: ntohs_def)
  also have "\<dots> = (unat ?a + unat ?b) mod 65536"
    by (simp add: unat_word_ariths)
  also have "unat ?a = 256 * unat (m ! 0)"
    using unat8_less [of "m ! 0"]
    by (simp add: unsigned_push_bit_eq push_bit_eq_mult unat_word_ariths unsigned_ucast_eq
        take_bit_eq_mod)
  also have "unat ?b = unat (m ! 1)"
    using unat8_less [of "m ! 1"] by (simp add: unsigned_ucast_eq take_bit_eq_mod)
  finally show ?thesis
    using unat8_less [of "m ! 0"] unat8_less [of "m ! 1"]
    by (simp add: be16_value_def)
qed

lemma unat_of_nat16: "n \<le> 65535 \<Longrightarrow> unat (word_of_nat n :: uint16) = n"
  by (simp add: unat_of_nat)

subsection \<open>The system-call log of the loop\<close>

lemma clean_simps [simp]:
  "clean []" "clean (e # es) = (\<not> io_failure e \<and> clean es)"
  "clean (xs @ ys) = (clean xs \<and> clean ys)"
  by (simp_all add: clean_def)

lemma step_log_append:
  "clean xs \<Longrightarrow> step_log st ys \<Longrightarrow> step_log st (xs @ ys)"
  by (cases st) (auto simp: step_log_def butlast_append)

lemma step_log_Cons:
  "\<not> io_failure e \<Longrightarrow> step_log st es \<Longrightarrow> step_log st (e # es)"
  using step_log_append [of "[e]" st es] by simp

lemma step_log_Continue [simp]: "step_log Continue es = clean es"
  by (simp add: step_log_def)

lemma step_log_Fault [simp]: "step_log Fault es = clean es"
  by (simp add: step_log_def)

lemma step_log_Break_single [simp]: "step_log (Break r) [e] = io_failure e"
  by (simp add: step_log_def)

lemma step_log_Killed_single [simp]: "step_log Killed [e] = io_failure e"
  by (simp add: step_log_def)

lemma send_frame_log:
  "send_frame ev n w = (st, w') \<Longrightarrow> \<exists>new. log w' = log w @ new \<and> step_log st new"
  by (auto simp: send_frame_def write_sock_def Let_def step_log_def split: if_splits)

lemma tun_to_sock_log:
  assumes "tun_to_sock ev w = (st, w')"
  shows "\<exists>new. log w' = log w @ new \<and> step_log st new"
proof -
  obtain n w1 where r: "read_tun w = (n, w1)" by (cases "read_tun w")
  have l1: "log w1 = log w @ [Read TunFd BUFFER_SIZE n]"
    using r by (auto simp: read_tun_def Let_def split: list.splits tun_ev.splits)
  show ?thesis
  proof (cases "n < 0")
    case True
    then show ?thesis using assms r l1 by (auto simp: tun_to_sock_def)
  next
    case False
    then have "send_frame ev n w1 = (st, w')" using assms r by (simp add: tun_to_sock_def)
    from send_frame_log [OF this] obtain new where "log w' = log w1 @ new" "step_log st new"
      by blast
    then have "log w' = log w @ (Read TunFd BUFFER_SIZE n # new)"
       "step_log st (Read TunFd BUFFER_SIZE n # new)"
      using l1 False by (auto intro!: step_log_Cons)
    then show ?thesis by auto
  qed
qed

lemma read_sock_log:
  "read_sock c w = (n, d, w') \<Longrightarrow> log w' = log w @ [Read SockFd c n]"
  by (auto simp: read_sock_def split: if_splits list.splits sock_ev.splits)

lemma sock_to_tun_log:
  assumes "sock_to_tun ev w = (st, w')"
  shows "\<exists>new. log w' = log w @ new \<and> step_log st new"
proof -
  obtain n1 hdr w1 where r1: "read_sock 2 w = (n1, hdr, w1)" by (cases "read_sock 2 w") auto
  note l1 = read_sock_log [OF r1]
  show ?thesis
  proof (cases "n1 \<le> 0")
    case True
    then show ?thesis using assms r1 l1 by (auto simp: sock_to_tun_def)
  next
    case False
    obtain n2 dat w2 where r2: "read_sock (unat (ntohs (take 2 (hdr @ [junk ev])))) w1 = (n2, dat, w2)"
      by (cases "read_sock (unat (ntohs (take 2 (hdr @ [junk ev])))) w1") auto
    note l2 = read_sock_log [OF r2]
    from assms r1 r2 False l1 l2 show ?thesis
      by (auto simp: sock_to_tun_def Let_def write_tun_def step_log_def split: if_splits)
  qed
qed

lemma loop_iteration_log:
  assumes "loop_iteration ev w = (st, w')"
  shows "\<exists>new. log w' = log w @ new \<and> step_log st new"
proof (cases "select_ret ev < 0")
  case True
  then show ?thesis using assms by (auto simp: loop_iteration_def Let_def)
next
  case False
  let ?w0 = "w\<lparr>log := log w @ [Select (select_ret ev)]\<rparr>"
  obtain st1 w1 where t: "(if tun_isset ev \<and> tun_in ?w0 \<noteq> [] then tun_to_sock ev ?w0
                            else (Continue, ?w0)) = (st1, w1)"
    by (cases "if tun_isset ev \<and> tun_in ?w0 \<noteq> [] then tun_to_sock ev ?w0 else (Continue, ?w0)")
  have "\<exists>new. log w1 = log ?w0 @ new \<and> step_log st1 new"
  proof (cases "tun_isset ev \<and> tun_in ?w0 \<noteq> []")
    case True
    then have "tun_to_sock ev ?w0 = (st1, w1)" using t by simp
    then show ?thesis by (rule tun_to_sock_log)
  next
    case False
    then show ?thesis using t by auto
  qed
  then obtain new1 where n1: "log w1 = log w @ Select (select_ret ev) # new1" "step_log st1 new1"
    by auto
  have rest: "(st, w') = (if st1 \<noteq> Continue then (st1, w1)
               else if sock_isset ev then sock_to_tun ev w1 else (Continue, w1))"
    using assms False t by (simp add: loop_iteration_def Let_def)
  show ?thesis
  proof (cases "st1 = Continue \<and> sock_isset ev")
    case True
    then have "sock_to_tun ev w1 = (st, w')" using rest by simp
    from sock_to_tun_log [OF this] obtain new2 where "log w' = log w1 @ new2" "step_log st new2"
      by blast
    then have "log w' = log w @ (Select (select_ret ev) # new1 @ new2)"
      "step_log st (Select (select_ret ev) # new1 @ new2)"
      using n1 True False by (auto intro!: step_log_Cons step_log_append)
    then show ?thesis by blast
  next
    case False
    then have "st = st1" "w' = w1" using rest by (auto split: if_splits)
    then have "log w' = log w @ (Select (select_ret ev) # new1)"
      "step_log st (Select (select_ret ev) # new1)"
      using n1 \<open>\<not> select_ret ev < 0\<close> by (auto intro!: step_log_Cons)
    then show ?thesis by blast
  qed
qed

lemma vpn_event_loop_log:
  "vpn_event_loop evs w = (st, w') \<Longrightarrow> \<exists>new. log w' = log w @ new \<and> step_log st new"
proof (induction evs arbitrary: w)
  case Nil
  then show ?case by auto
next
  case (Cons ev evs)
  obtain st1 w1 where it: "loop_iteration ev w = (st1, w1)" by (cases "loop_iteration ev w")
  from loop_iteration_log [OF it] obtain new1 where n1: "log w1 = log w @ new1" "step_log st1 new1"
    by blast
  show ?case
  proof (cases "st1 = Continue")
    case True
    then have "vpn_event_loop evs w1 = (st, w')" using Cons.prems it by simp
    from Cons.IH [OF this] obtain new2 where "log w' = log w1 @ new2" "step_log st new2" by blast
    then have "log w' = log w @ (new1 @ new2)" "step_log st (new1 @ new2)"
      using n1 True by (auto intro!: step_log_append)
    then show ?thesis by blast
  next
    case False
    then have "st = st1" "w' = w1" using Cons.prems it by (cases st1; simp)+
    then show ?thesis using n1 by blast
  qed
qed

lemma vpn_event_loop_stops:
  "vpn_event_loop evs w = (st, w') \<Longrightarrow> st \<noteq> Continue \<Longrightarrow>
   vpn_event_loop (evs @ later) w = (st, w')"
proof (induction evs arbitrary: w)
  case Nil
  then show ?case by simp
next
  case (Cons ev evs)
  obtain st1 w1 where it: "loop_iteration ev w = (st1, w1)" by (cases "loop_iteration ev w")
  show ?case
  proof (cases "st1 = Continue")
    case True
    then show ?thesis using Cons it by simp
  next
    case False
    then show ?thesis using Cons.prems it by (cases st1; auto)
  qed
qed

subsection \<open>Leaving the loop\<close>

lemma closing_Nil [simp]: "closing [] w = w"
  by (simp add: closing_def)

lemma clean_iff: "clean es \<longleftrightarrow> (\<forall>e\<in>set es. \<not> io_failure e)"
  by (simp add: clean_def list_all_iff)

lemma server_main_ok:
  "server_ok s \<Longrightarrow> server_main s evs w =
     (case vpn_event_loop evs w of
        (Continue, w') \<Rightarrow> Running w'
      | (Fault, w') \<Rightarrow> Undefined w'
      | (Killed, w') \<Rightarrow> Signalled w'
      | (Break r, w') \<Rightarrow> Exited 0 (closing [Close SockFd, Close ListenFd, Close TunFd] w'))"
  by (simp add: server_ok_def server_main_def create_tun_device_def create_server_socket_def)

lemma client_main_ok:
  "client_ok s \<Longrightarrow> client_main s evs w =
     (case vpn_event_loop evs w of
        (Continue, w') \<Rightarrow> Running w'
      | (Fault, w') \<Rightarrow> Undefined w'
      | (Killed, w') \<Rightarrow> Signalled w'
      | (Break r, w') \<Rightarrow> Exited 0 (closing [Close SockFd, Close TunFd] w'))"
  by (simp add: client_ok_def client_main_def create_tun_device_def connect_to_server_def)

lemma server_main_fail:
  "\<not> server_ok s \<Longrightarrow>
   \<exists>wend. server_main s evs w = Exited 1 wend \<and> sock_out wend = sock_out w \<and> tun_out wend = tun_out w \<and>
     sock_in wend = sock_in w \<and> tun_in wend = tun_in w"
  by (auto simp: server_ok_def server_main_def create_tun_device_def create_server_socket_def
      closing_def)

lemma client_main_fail:
  "\<not> client_ok s \<Longrightarrow>
   \<exists>wend. client_main s evs w = Exited 1 wend \<and> sock_out wend = sock_out w \<and> tun_out wend = tun_out w \<and>
     sock_in wend = sock_in w \<and> tun_in wend = tun_in w"
  by (auto simp: client_ok_def client_main_def create_tun_device_def connect_to_server_def
      closing_def)

text \<open>
  What holds of every run: a failed call is the last call the loop makes. When
  the failure is reported by a return value the loop is left by \<open>break\<close>,
  whatever the environment would offer later, and \<open>main\<close> then closes the
  descriptors and returns 0. When it is SIGPIPE the process ends there.
\<close>

lemma failure_ends_loop:
  assumes "vpn_event_loop evs w = (st, w')"
  shows "\<exists>new. log w' = log w @ new \<and>
           (\<forall>e\<in>set (butlast new). \<not> io_failure e) \<and>
           ((\<exists>e\<in>set new. io_failure e) \<longrightarrow>
              ((\<exists>r. st = Break r) \<or> st = Killed) \<and> io_failure (last new) \<and>
              (\<forall>later. vpn_event_loop (evs @ later) w = (st, w')))"
proof -
  from vpn_event_loop_log [OF assms] obtain new
    where new: "log w' = log w @ new" "step_log st new" by blast
  have a: "\<forall>e\<in>set (butlast new). \<not> io_failure e"
    using new(2) by (cases st) (auto simp: step_log_def clean_iff dest: in_set_butlastD)
  have b: "(\<exists>e\<in>set new. io_failure e) \<Longrightarrow> (\<exists>r. st = Break r) \<or> st = Killed"
    using new(2) by (cases st) (auto simp: clean_iff)
  have c: "(\<exists>r. st = Break r) \<or> st = Killed \<Longrightarrow> io_failure (last new)"
    using new(2) by (auto simp: step_log_def)
  have d: "\<And>later. (\<exists>r. st = Break r) \<or> st = Killed \<Longrightarrow>
      vpn_event_loop (evs @ later) w = (st, w')"
    using vpn_event_loop_stops [OF assms] by auto
  show ?thesis
    using new(1) a b c d by blast
qed

text \<open>
  C5 (the code at a failing input). The server has read a 3-byte packet from the
  interface and sent its length prefix; the peer has closed the connection, so
  the \<open>write\<close> of the payload raises SIGPIPE. The process ends inside that
  call: the loop is not left by \<open>break\<close>, no descriptor is closed by the
  program, and \<open>main\<close> does not return.
\<close>

theorem sigpipe_ends_server:
  "server_ok s_ok \<and>
   server_main s_ok [ev_pipe] w_send =
     Signalled (w_send\<lparr>buffer := [0x43, 0x40, 0x41] @ replicate 2045 0, tun_in := [],
        sock_out := [0, 3],
        log := [Select 1, Read TunFd 2048 3, Write SockFd 2 2, Sigpipe SockFd 3]\<rparr>)"
  by (simp add: server_ok_def s_ok_def server_main_ok ev_pipe_def ev_ex_def w_send_def w_ex_def
      loop_iteration_def tun_to_sock_def read_tun_def send_frame_def write_sock_def Let_def
      htons_def BUFFER_SIZE_def xor_crypt_eq XOR_KEY_def)

subsection \<open>Exit status\<close>

text \<open>
  C8. When any call of the setup fails (the TUN device cannot be opened or
  configured, the address is invalid, \<open>socket\<close>, \<open>bind\<close>, \<open>listen\<close>,
  \<open>accept\<close> or \<open>connect\<close> fails, or the client is started with the wrong
  number of arguments) the process exits with status 1. When the setup succeeded
  and the loop is left because the peer disconnected, the process closes its
  descriptors and exits with status 0.
\<close>

theorem exit_status:
  "(\<not> server_ok s \<longrightarrow> (\<exists>wend. server_main s evs w = Exited 1 wend)) \<and>
   (\<not> client_ok s \<longrightarrow> (\<exists>wend. client_main s evs w = Exited 1 wend)) \<and>
   (server_ok s \<and> vpn_event_loop evs w = (Break Disconnected, w') \<longrightarrow>
      server_main s evs w = Exited 0 (closing [Close SockFd, Close ListenFd, Close TunFd] w')) \<and>
   (client_ok s \<and> vpn_event_loop evs w = (Break Disconnected, w') \<longrightarrow>
      client_main s evs w = Exited 0 (closing [Close SockFd, Close TunFd] w'))"
  using server_main_fail [of s evs w] client_main_fail [of s evs w]
  by (auto simp: server_main_ok client_main_ok)

theorem exit_status_witness:
  "\<not> server_ok s_bad \<and> \<not> client_ok s_bad \<and>
   server_main s_bad [ev_ex] w_ex = Exited 1 w_ex \<and>
   client_main s_bad [ev_ex] w_ex = Exited 1 w_ex \<and>
   server_ok s_ok \<and> client_ok s_ok \<and>
   vpn_event_loop [ev_ex] w_ex = (Break Disconnected, w_ex\<lparr>log := [Select 1, Read SockFd 2 0]\<rparr>) \<and>
   server_main s_ok [ev_ex] w_ex =
     Exited 0 (w_ex\<lparr>log := [Select 1, Read SockFd 2 0, Close SockFd, Close ListenFd, Close TunFd]\<rparr>) \<and>
   client_main s_ok [ev_ex] w_ex =
     Exited 0 (w_ex\<lparr>log := [Select 1, Read SockFd 2 0, Close SockFd, Close TunFd]\<rparr>)"
proof -
  have run: "vpn_event_loop [ev_ex] w_ex =
      (Break Disconnected, w_ex\<lparr>log := [Select 1, Read SockFd 2 0]\<rparr>)"
    by (simp add: ev_ex_def w_ex_def loop_iteration_def sock_to_tun_def read_sock_def Let_def)
  have ok: "server_ok s_ok" "client_ok s_ok"
    by (simp_all add: server_ok_def client_ok_def s_ok_def)
  have bad: "\<not> server_ok s_bad" "\<not> client_ok s_bad"
    by (simp_all add: server_ok_def client_ok_def s_bad_def s_ok_def)
  have b1: "server_main s_bad [ev_ex] w_ex = Exited 1 w_ex"
    "client_main s_bad [ev_ex] w_ex = Exited 1 w_ex"
    using exit_status [of s_bad "[ev_ex]" w_ex] bad
    by (simp_all add: server_main_def client_main_def create_tun_device_def s_bad_def s_ok_def)
  from exit_status [of s_ok "[ev_ex]" w_ex "w_ex\<lparr>log := [Select 1, Read SockFd 2 0]\<rparr>"] ok run bad b1
  show ?thesis by (simp add: closing_def)
qed

text \<open>
  Whatever the reason \<open>r\<close> for which the loop is left by \<open>break\<close>, server and
  client close their descriptors and exit with status 0, and an exit status other
  than 0 is 1 and comes from a failed setup.
\<close>

lemma break_exit_status_zero:
  "(server_ok s \<and> vpn_event_loop evs w = (Break r, w') \<longrightarrow>
      server_main s evs w = Exited 0 (closing [Close SockFd, Close ListenFd, Close TunFd] w')) \<and>
   (client_ok s \<and> vpn_event_loop evs w = (Break r, w') \<longrightarrow>
      client_main s evs w = Exited 0 (closing [Close SockFd, Close TunFd] w')) \<and>
   (server_main s evs w = Exited c wend \<and> c \<noteq> 0 \<longrightarrow> \<not> server_ok s \<and> c = 1) \<and>
   (client_main s evs w = Exited c wend \<and> c \<noteq> 0 \<longrightarrow> \<not> client_ok s \<and> c = 1)"
proof -
  have a: "server_main s evs w = Exited c wend \<Longrightarrow> c \<noteq> 0 \<Longrightarrow> \<not> server_ok s"
    by (auto simp: server_main_ok split: prod.splits status.splits)
  have b: "client_main s evs w = Exited c wend \<Longrightarrow> c \<noteq> 0 \<Longrightarrow> \<not> client_ok s"
    by (auto simp: client_main_ok split: prod.splits status.splits)
  show ?thesis
    using a b server_main_fail [of s evs w] client_main_fail [of s evs w]
    by (auto simp: server_main_ok client_main_ok)
qed

text \<open>
  C9 (the code at a failing input). The setup of the client succeeded; it has
  read a 3-byte packet from the interface, and the server has closed the
  connection, so the \<open>write\<close> of the length prefix raises SIGPIPE. The client
  does not close its descriptors and does not return 0: it is ended by the
  signal, an abnormal termination caused by an I/O error of the session.
\<close>

theorem sigpipe_ends_client:
  "client_ok s_ok \<and>
   client_main s_ok [ev_pipe_len] w_send =
     Signalled (w_send\<lparr>buffer := [0x43, 0x40, 0x41] @ replicate 2045 0, tun_in := [],
        log := [Select 1, Read TunFd 2048 3, Sigpipe SockFd 2]\<rparr>)"
  by (simp add: client_ok_def s_ok_def client_main_ok ev_pipe_len_def ev_ex_def w_send_def w_ex_def
      loop_iteration_def tun_to_sock_def read_tun_def send_frame_def write_sock_def Let_def
      htons_def BUFFER_SIZE_def xor_crypt_eq XOR_KEY_def)

subsection \<open>Framing on the way in\<close>

lemma read_sock_le:
  assumes "read_sock c w = (n, d, w')"
  shows "n \<le> int c"
proof -
  have "(0::int) \<le> int c" "- 1 \<le> int c" by simp_all
  then show ?thesis
    using assms by (auto simp: read_sock_def split: if_splits list.splits sock_ev.splits)
qed

lemma sock_to_tun_fault:
  assumes "fst (sock_to_tun ev w) = Fault"
  shows "\<exists>n r. last (log (snd (sock_to_tun ev w))) = Read SockFd n r \<and>
               int BUFFER_SIZE < r \<and> r \<le> int n"
proof -
  obtain n1 hdr w1 where r1: "read_sock 2 w = (n1, hdr, w1)" by (cases "read_sock 2 w") auto
  show ?thesis
  proof (cases "n1 \<le> 0")
    case True
    then show ?thesis using assms r1 by (simp add: sock_to_tun_def)
  next
    case False
    obtain n2 dat w2 where r2: "read_sock (unat (ntohs (take 2 (hdr @ [junk ev])))) w1 = (n2, dat, w2)"
      by (cases "read_sock (unat (ntohs (take 2 (hdr @ [junk ev])))) w1") auto
    note l2 = read_sock_log [OF r2]
    have le: "n2 \<le> int (unat (ntohs (take 2 (hdr @ [junk ev]))))"
      using r2 by (rule read_sock_le)
    from assms r1 r2 False l2 le show ?thesis
      by (auto simp: sock_to_tun_def Let_def write_tun_def split: if_splits)
  qed
qed

text \<open>
  C10. On the receive path the length declared on the wire, any value from 0 to
  65535, is the byte count of the \<open>read\<close> into \<open>buffer\<close>. When it is at most
  \<open>BUFFER_SIZE\<close> the read stays inside the buffer. When it is larger nothing
  rejects the frame: the read overruns the buffer as soon as more than
  \<open>BUFFER_SIZE\<close> bytes are available, and otherwise the short payload is
  forwarded as a packet. An overrun happens only in a payload read whose count
  exceeds \<open>BUFFER_SIZE\<close>.
\<close>

theorem payload_read_unchecked:
  assumes "sock_in w = SockData [b0, b1] # SockData c # rest" and "L = be16_value [b0, b1]"
  shows "Read SockFd L (int (min L (length c))) \<in> set (log (snd (sock_to_tun ev w))) \<and>
     (L \<le> BUFFER_SIZE \<longrightarrow> fst (sock_to_tun ev w) \<noteq> Fault) \<and>
     (BUFFER_SIZE < L \<and> BUFFER_SIZE < length c \<longrightarrow> fst (sock_to_tun ev w) = Fault) \<and>
     (BUFFER_SIZE < L \<and> 0 < length c \<and> length c \<le> BUFFER_SIZE \<and> write_tun_ok ev \<longrightarrow>
        fst (sock_to_tun ev w) = Continue) \<and>
     (\<forall>u. fst (sock_to_tun ev u) = Fault \<longrightarrow>
        (\<exists>n r. last (log (snd (sock_to_tun ev u))) = Read SockFd n r \<and>
               int BUFFER_SIZE < r \<and> r \<le> int n))"
proof -
  let ?w1 = "w\<lparr>sock_in := SockData c # rest, log := log w @ [Read SockFd 2 2]\<rparr>"
  have r1: "read_sock 2 w = (2, [b0, b1], ?w1)"
    using assms(1) by (simp add: read_sock_def)
  have pl: "unat (ntohs (take 2 ([b0, b1] @ [junk ev]))) = L"
    using assms(2) by (simp add: unat_ntohs be16_value_def)
  obtain n2 dat w2 where r2: "read_sock L ?w1 = (n2, dat, w2)"
    by (cases "read_sock L ?w1") auto
  have n2: "n2 = int (min L (length c))" and l2: "log w2 = log w @ [Read SockFd 2 2, Read SockFd L n2]"
    using r2 by (auto simp: read_sock_def split: if_splits)
  have a: "Read SockFd L (int (min L (length c))) \<in> set (log (snd (sock_to_tun ev w)))"
    using r1 pl r2 n2 l2
    by (auto simp: sock_to_tun_def Let_def write_tun_def split: if_splits)
  have b: "L \<le> BUFFER_SIZE \<Longrightarrow> fst (sock_to_tun ev w) \<noteq> Fault"
    using r1 pl r2 n2
    by (auto simp: sock_to_tun_def Let_def write_tun_def split: if_splits)
  have c: "BUFFER_SIZE < L \<Longrightarrow> BUFFER_SIZE < length c \<Longrightarrow> fst (sock_to_tun ev w) = Fault"
    using r1 pl r2 n2
    by (auto simp: sock_to_tun_def Let_def write_tun_def split: if_splits)
  have d: "BUFFER_SIZE < L \<Longrightarrow> 0 < length c \<Longrightarrow> length c \<le> BUFFER_SIZE \<Longrightarrow> write_tun_ok ev \<Longrightarrow>
        fst (sock_to_tun ev w) = Continue"
    using r1 pl r2 n2
    by (auto simp: sock_to_tun_def Let_def write_tun_def split: if_splits)
  show ?thesis using a b c d sock_to_tun_fault by blast
qed

theorem payload_read_unchecked_witness:
  "sock_in w_big = SockData [8, 1] # SockData (replicate 2049 0) # [] \<and>
   (2049::nat) = be16_value [8, 1] \<and> BUFFER_SIZE < 2049 \<and> BUFFER_SIZE < length (replicate 2049 (0::byte)) \<and>
   Read SockFd 2049 2049 \<in> set (log (snd (sock_to_tun ev_ex w_big))) \<and>
   fst (sock_to_tun ev_ex w_big) = Fault"
proof -
  have h1: "sock_in w_big = SockData [8, 1] # SockData (replicate 2049 0) # []"
    by (simp add: w_big_def w_ex_def)
  have h2: "(2049::nat) = be16_value [8, 1]"
    by (simp add: be16_value_def)
  have h3: "BUFFER_SIZE < 2049" "BUFFER_SIZE < length (replicate 2049 (0::byte))"
    by (simp_all add: BUFFER_SIZE_def)
  from payload_read_unchecked [OF h1 h2, of ev_ex] h1 h2 h3
  show ?thesis by simp
qed

text \<open>
  C2 (the code at a failing input). A frame declaring 4 payload bytes arrives in
  two pieces, the first carrying the prefix and 2 payload bytes. The payload
  \<open>read\<close> asks for 4 bytes, gets 2, and the loop forwards a 2-byte packet; the
  other 2 payload bytes stay in the stream, where the next iteration will take
  them for a length prefix.
\<close>

theorem short_payload_read:
  "vpn_event_loop [ev_ex] w_short =
     (Continue, w_short\<lparr>buffer := [1, 2, 3] @ replicate 2045 0, 
        sock_in := [SockData [0x41, 0x46]], tun_out := [[1, 2]],
        log := [Select 1, Read SockFd 2 2, Read SockFd 4 2, Write TunFd 2 2]\<rparr>)"
  by (simp add: w_short_def w_ex_def ev_ex_def loop_iteration_def sock_to_tun_def read_sock_def
      write_tun_def Let_def ntohs_def BUFFER_SIZE_def xor_crypt_eq XOR_KEY_def)

text \<open>
  C3 (the code at a failing input). The sender frames an empty packet as the two
  bytes 0, 0. The receiver, reading that prefix while more data follows on the
  open stream, asks \<open>read\<close> for 0 bytes, gets 0, and leaves the loop as if the
  peer had disconnected; no packet reaches the interface.
\<close>

theorem zero_length_frame:
  "fst (tun_to_sock ev_ex (w_ex\<lparr>tun_in := [TunPkt []]\<rparr>)) = Continue \<and>
   sock_out (snd (tun_to_sock ev_ex (w_ex\<lparr>tun_in := [TunPkt []]\<rparr>))) = [0, 0] \<and>
   vpn_event_loop [ev_ex] w_zero =
     (Break Disconnected, w_zero\<lparr>sock_in := [SockData [0, 1, 0x43]],
        log := [Select 1, Read SockFd 2 2, Read SockFd 0 0]\<rparr>)"
  by (simp add: w_zero_def w_ex_def ev_ex_def loop_iteration_def sock_to_tun_def read_sock_def
      tun_to_sock_def read_tun_def send_frame_def write_sock_def htons_def
      write_tun_def Let_def ntohs_def BUFFER_SIZE_def xor_crypt_eq XOR_KEY_def)

subsection \<open>Round trip of a frame\<close>

lemma send_frame_Continue:
  assumes "take (length p) (buffer w) = p" "write_len_ok ev" "write_data_ok ev"
  shows "send_frame ev (int (length p)) w =
    (Continue, w\<lparr>buffer := xor_crypt (buffer w) (int (length p)) XOR_KEY,
       sock_out := sock_out w @ htons (word_of_nat (length p)) @ map (\<lambda>b. b XOR XOR_KEY) p,
       log := log w @ [Write SockFd 2 2, Write SockFd (length p) (int (length p))]\<rparr>)"
proof -
  have cipher: "take (length p) (xor_crypt (buffer w) (int (length p)) XOR_KEY)
      = map (\<lambda>b. b XOR XOR_KEY) p"
    using assms(1) by (simp add: xor_crypt_eq)
  have lp: "length p \<le> length (buffer w)"
    using arg_cong [OF assms(1), of length] by simp
  show ?thesis
    using assms(2,3) cipher lp
    by (simp add: send_frame_def write_sock_def Let_def length_htons xor_crypt_length)
qed

lemma read_tun_pkt:
  "tun_in w = TunPkt p # rest \<Longrightarrow> read_tun w =
     (int (length (take BUFFER_SIZE p)),
      w\<lparr>buffer := take BUFFER_SIZE p @ drop (length (take BUFFER_SIZE p)) (buffer w), tun_in := rest,
        log := log w @ [Read TunFd BUFFER_SIZE (int (length (take BUFFER_SIZE p)))]\<rparr>)"
  by (simp add: read_tun_def Let_def)

lemma tun_to_sock_Continue:
  assumes "tun_in w = TunPkt p # rest" "write_len_ok ev" "write_data_ok ev"
    and d: "d = take BUFFER_SIZE p"
  shows "tun_to_sock ev w =
    (Continue, w\<lparr>buffer := xor_crypt (d @ drop (length d) (buffer w)) (int (length d)) XOR_KEY,
       tun_in := rest,
       sock_out := sock_out w @ htons (word_of_nat (length d)) @ map (\<lambda>b. b XOR XOR_KEY) d,
       log := log w @ [Read TunFd BUFFER_SIZE (int (length d)), Write SockFd 2 2,
                       Write SockFd (length d) (int (length d))]\<rparr>)"
proof -
  let ?w1 = "w\<lparr>buffer := d @ drop (length d) (buffer w), tun_in := rest,
        log := log w @ [Read TunFd BUFFER_SIZE (int (length d))]\<rparr>"
  have r: "read_tun w = (int (length d), ?w1)"
    using read_tun_pkt [OF assms(1)] d by simp
  have t: "take (length d) (buffer ?w1) = d" by simp
  show ?thesis
    using r send_frame_Continue [OF t assms(2,3)]
    by (simp add: tun_to_sock_def)
qed

lemma sock_to_tun_whole_frame:
  assumes "sock_in w = SockData (htons (word_of_nat (length c)) @ c @ tail) # rest"
    and "0 < length c" "length c \<le> BUFFER_SIZE" "write_tun_ok ev"
  shows "sock_to_tun ev w =
    (Continue, w\<lparr>buffer := xor_crypt (c @ drop (length c) (buffer w)) (int (length c)) XOR_KEY,
       sock_in := (if tail = [] then rest else SockData tail # rest),
       tun_out := tun_out w @ [map (\<lambda>b. b XOR XOR_KEY) c],
       log := log w @ [Read SockFd 2 2, Read SockFd (length c) (int (length c)),
                       Write TunFd (length c) (int (length c))]\<rparr>)"
proof -
  let ?h = "htons (word_of_nat (length c))"
  let ?w1 = "w\<lparr>sock_in := SockData (c @ tail) # rest, log := log w @ [Read SockFd 2 2]\<rparr>"
  have lh: "length ?h = 2" by (rule length_htons)
  have r1: "read_sock 2 w = (2, ?h, ?w1)"
    using assms(1,2) lh by (simp add: read_sock_def)
  have "length c \<le> 65535" using assms(3) by (simp add: BUFFER_SIZE_def)
  then have pl: "unat (ntohs (take 2 (?h @ [junk ev]))) = length c"
    using lh by (simp add: ntohs_htons unat_of_nat16)
  let ?w2 = "?w1\<lparr>sock_in := (if tail = [] then rest else SockData tail # rest),
               log := log ?w1 @ [Read SockFd (length c) (int (length c))]\<rparr>"
  have r2: "read_sock (length c) ?w1 = (int (length c), c, ?w2)"
    using assms(2) by (simp add: read_sock_def)
  have x: "take (length c) (xor_crypt (c @ drop (length c) (buffer w)) (int (length c)) XOR_KEY)
        = map (\<lambda>b. b XOR XOR_KEY) c"
    by (simp add: xor_crypt_eq)
  show ?thesis
    unfolding sock_to_tun_def
    using r1 pl r2 x assms(2,3,4)
    by (simp add: Let_def write_tun_def xor_crypt_length)
qed


text \<open>
  C1 (amended). For every packet \<open>p\<close> of 1 to \<open>BUFFER_SIZE\<close> (2048) bytes read
  from the interface, the sender puts one frame on the transport, and a
  receiver that finds this whole frame available when it reads (followed or not
  by further bytes) writes exactly \<open>p\<close> to its interface and consumes exactly
  the frame.
\<close>

theorem frame_round_trip:
  assumes "1 \<le> length p" "length p \<le> BUFFER_SIZE"
    and "tun_in ws = TunPkt p # rest_t" "write_len_ok es" "write_data_ok es"
  shows "\<exists>frame. fst (tun_to_sock es ws) = Continue \<and>
      sock_out (snd (tun_to_sock es ws)) = sock_out ws @ frame \<and>
      (\<forall>er wr tail rest_s.
          sock_in wr = SockData (frame @ tail) # rest_s \<and> write_tun_ok er \<longrightarrow>
          fst (sock_to_tun er wr) = Continue \<and>
          tun_out (snd (sock_to_tun er wr)) = tun_out wr @ [p] \<and>
          sock_in (snd (sock_to_tun er wr)) = (if tail = [] then rest_s else SockData tail # rest_s))"
proof -
  let ?c = "map (\<lambda>b. b XOR XOR_KEY) p"
  let ?frame = "htons (word_of_nat (length p)) @ ?c"
  have d: "p = take BUFFER_SIZE p" using assms(2) by simp
  note sent = tun_to_sock_Continue [OF assms(3,4,5) d]
  have dec: "map (\<lambda>b. b XOR XOR_KEY) ?c = p"
    by (simp add: o_def xor_twice)
  have recv: "fst (sock_to_tun er wr) = Continue \<and>
          tun_out (snd (sock_to_tun er wr)) = tun_out wr @ [p] \<and>
          sock_in (snd (sock_to_tun er wr)) = (if tail = [] then rest_s else SockData tail # rest_s)"
    if "sock_in wr = SockData (?frame @ tail) # rest_s" "write_tun_ok er" for er wr tail rest_s
  proof -
    have a: "sock_in wr = SockData (htons (word_of_nat (length ?c)) @ ?c @ tail) # rest_s"
      using that(1) by simp
    have b: "0 < length ?c" "length ?c \<le> BUFFER_SIZE" using assms(1,2) by auto
    show ?thesis
      using sock_to_tun_whole_frame [OF a b that(2)] dec by simp
  qed
  have "fst (tun_to_sock es ws) = Continue \<and>
      sock_out (snd (tun_to_sock es ws)) = sock_out ws @ ?frame"
    using sent by simp
  with recv show ?thesis by blast
qed

theorem frame_round_trip_witness:
  "1 \<le> length [1, 2, 3 :: byte] \<and> length [1, 2, 3 :: byte] \<le> BUFFER_SIZE \<and>
   tun_in w_send = TunPkt [1, 2, 3] # [] \<and> write_len_ok ev_ex \<and> write_data_ok ev_ex \<and>
   sock_out (snd (tun_to_sock ev_ex w_send)) = [0, 3, 0x43, 0x40, 0x41] \<and>
   sock_in w_recv = SockData ([0, 3, 0x43, 0x40, 0x41] @ []) # [] \<and> write_tun_ok ev_ex \<and>
   fst (sock_to_tun ev_ex w_recv) = Continue \<and>
   tun_out (snd (sock_to_tun ev_ex w_recv)) = [[1, 2, 3]]"
proof -
  have h: "1 \<le> length [1, 2, 3 :: byte]" "length [1, 2, 3 :: byte] \<le> BUFFER_SIZE"
    "tun_in w_send = TunPkt [1, 2, 3] # []" "write_len_ok ev_ex" "write_data_ok ev_ex"
    "write_tun_ok ev_ex"
    by (simp_all add: BUFFER_SIZE_def w_send_def w_ex_def ev_ex_def)
  have out: "sock_out (snd (tun_to_sock ev_ex w_send)) = [0, 3, 0x43, 0x40, 0x41]"
    by (simp add: tun_to_sock_def read_tun_def send_frame_def write_sock_def Let_def
        w_send_def w_ex_def ev_ex_def BUFFER_SIZE_def xor_crypt_eq htons_def XOR_KEY_def)
  have rin: "sock_in w_recv = SockData ([0, 3, 0x43, 0x40, 0x41] @ []) # []"
    "tun_out w_recv = []"
    by (simp_all add: w_recv_def w_ex_def)
  from frame_round_trip [OF h(1-5)] obtain frame where
    f: "sock_out (snd (tun_to_sock ev_ex w_send)) = sock_out w_send @ frame"
    and r: "\<forall>er wr tail rest_s.
          sock_in wr = SockData (frame @ tail) # rest_s \<and> write_tun_ok er \<longrightarrow>
          fst (sock_to_tun er wr) = Continue \<and>
          tun_out (snd (sock_to_tun er wr)) = tun_out wr @ [[1, 2, 3]] \<and>
          sock_in (snd (sock_to_tun er wr)) = (if tail = [] then rest_s else SockData tail # rest_s)"
    by blast
  from f out have "frame = [0, 3, 0x43, 0x40, 0x41]"
    by (simp add: w_send_def w_ex_def)
  with r rin h(6) have "fst (sock_to_tun ev_ex w_recv) = Continue \<and>
          tun_out (snd (sock_to_tun ev_ex w_recv)) = tun_out w_recv @ [[1, 2, 3]]"
    by blast
  with h out rin show ?thesis by simp
qed

text \<open>
  The round trip fails for packets longer than the buffer: of a 2049-byte packet
  the sender reads, frames and sends the first 2048 bytes only, and these are
  what the receiver delivers.
\<close>

theorem round_trip_counterexample:
  "length p_big \<le> 65535 \<and>
   fst (tun_to_sock ev_ex w_send_big) = Continue \<and>
   fst (sock_to_tun ev_ex w_recv_big) = Continue \<and>
   tun_out (snd (sock_to_tun ev_ex w_recv_big)) = [replicate 2048 0] \<and>
   tun_out (snd (sock_to_tun ev_ex w_recv_big)) \<noteq> [p_big]"
proof -
  let ?d = "replicate 2048 (0::byte)" and ?c = "replicate 2048 (0x42::byte)"
  have d: "?d = take BUFFER_SIZE p_big"
    by (simp add: p_big_def BUFFER_SIZE_def)
  have t: "tun_in w_send_big = TunPkt p_big # []" "write_len_ok ev_ex" "write_data_ok ev_ex"
    "write_tun_ok ev_ex"
    by (simp_all add: w_send_big_def w_ex_def ev_ex_def)
  note s = tun_to_sock_Continue [OF t(1,2,3) d]
  have out: "sock_out (snd (tun_to_sock ev_ex w_send_big)) = htons (word_of_nat (length ?c)) @ ?c @ []"
    using s by (simp add: w_send_big_def w_ex_def XOR_KEY_def)
  have rin: "sock_in w_recv_big = SockData (htons (word_of_nat (length ?c)) @ ?c @ []) # []"
    unfolding w_recv_big_def using out by simp
  have b: "0 < length ?c" "length ?c \<le> BUFFER_SIZE" by (simp_all add: BUFFER_SIZE_def)
  note r = sock_to_tun_whole_frame [OF rin b t(4)]
  have tout: "tun_out (snd (sock_to_tun ev_ex w_recv_big)) = [?d]"
    using r by (simp add: w_recv_big_def w_ex_def XOR_KEY_def)
  show ?thesis
    using s r tout by (simp add: p_big_def)
qed

subsection \<open>Framing on the way out\<close>

lemma send_frame_status:
  "send_frame ev n w = (st, w') \<Longrightarrow>
     (st = Continue \<or> st = Break SendLenFailed \<or> st = Break SendDataFailed \<or> st = Killed) \<and>
     (st = Continue \<longleftrightarrow> write_len_ok ev \<and> write_data_ok ev)"
  by (auto simp: send_frame_def write_sock_def Let_def split: if_splits)

text \<open>
  C6 (amended). For every packet \<open>p\<close> of at most \<open>BUFFER_SIZE\<close> (2048) bytes
  read from the interface, the sending path writes to the transport the two-byte
  big-endian value \<open>length p\<close> followed by the \<open>length p\<close> bytes of \<open>p\<close>, each
  XORed with the key. Computing the frame cannot fail: the path is left only
  when one of its two \<open>write\<close> calls does not succeed. A longer packet is cut
  to its first \<open>BUFFER_SIZE\<close> bytes by the read, and the frame is that of the
  cut packet.
\<close>

theorem tun_to_sock_encodes:
  assumes "tun_in w = TunPkt p # rest" and "tun_to_sock ev w = (st, w')"
  shows "(st = Continue \<or> st = Break SendLenFailed \<or> st = Break SendDataFailed \<or> st = Killed) \<and>
     (st = Continue \<longleftrightarrow> write_len_ok ev \<and> write_data_ok ev) \<and>
     (length p \<le> BUFFER_SIZE \<longrightarrow>
        length (htons (word_of_nat (length p))) = 2 \<and>
        be16_value (htons (word_of_nat (length p))) = length p \<and>
        (st = Continue \<longrightarrow>
           sock_out w' = sock_out w @ htons (word_of_nat (length p))
                          @ map (\<lambda>b. b XOR XOR_KEY) p)) \<and>
     (BUFFER_SIZE < length p \<and> st = Continue \<longrightarrow>
        sock_out w' = sock_out w @ htons (word_of_nat BUFFER_SIZE)
                       @ map (\<lambda>b. b XOR XOR_KEY) (take BUFFER_SIZE p))"
proof -
  define d where "d = take BUFFER_SIZE p"
  let ?w1 = "w\<lparr>buffer := d @ drop (length d) (buffer w), tun_in := rest,
        log := log w @ [Read TunFd BUFFER_SIZE (int (length d))]\<rparr>"
  have r: "read_tun w = (int (length d), ?w1)"
    using read_tun_pkt [OF assms(1)] by (simp add: d_def)
  have s: "send_frame ev (int (length d)) ?w1 = (st, w')"
    using assms(2) r by (simp add: tun_to_sock_def)
  note status = send_frame_status [OF s]
  have out: "sock_out w' = sock_out w @ htons (word_of_nat (length d)) @ map (\<lambda>b. b XOR XOR_KEY) d"
    if "st = Continue"
  proof -
    have ok: "write_len_ok ev" "write_data_ok ev" using status that by simp_all
    have "tun_to_sock ev w = (Continue, w\<lparr>buffer := xor_crypt (d @ drop (length d) (buffer w)) (int (length d)) XOR_KEY,
       tun_in := rest,
       sock_out := sock_out w @ htons (word_of_nat (length d)) @ map (\<lambda>b. b XOR XOR_KEY) d,
       log := log w @ [Read TunFd BUFFER_SIZE (int (length d)), Write SockFd 2 2,
                       Write SockFd (length d) (int (length d))]\<rparr>)"
      using tun_to_sock_Continue [OF assms(1) ok d_def] .
    with assms(2) show ?thesis by auto
  qed
  have small: "d = p" if "length p \<le> BUFFER_SIZE" using that by (simp add: d_def)
  have big: "length d = BUFFER_SIZE" if "BUFFER_SIZE < length p" using that by (simp add: d_def)
  have len: "be16_value (htons (word_of_nat (length p))) = length p" if "length p \<le> BUFFER_SIZE"
    using that by (simp add: be16_htons unat_of_nat16 BUFFER_SIZE_def)
  show ?thesis
    using status out small big len by (auto simp: length_htons d_def)
qed

theorem tun_to_sock_encodes_witness:
  "tun_in w_send = TunPkt [1, 2, 3] # [] \<and> length [1, 2, 3 :: byte] \<le> BUFFER_SIZE \<and>
   tun_to_sock ev_ex w_send =
     (Continue, w_send\<lparr>buffer := [0x43, 0x40, 0x41] @ replicate 2045 0, tun_in := [],
        sock_out := [0, 3, 0x43, 0x40, 0x41],
        log := [Read TunFd 2048 3, Write SockFd 2 2, Write SockFd 3 3]\<rparr>) \<and>
   be16_value (htons (word_of_nat (length [1, 2, 3 :: byte]))) = 3 \<and>
   tun_in w_send_big = TunPkt p_big # [] \<and> BUFFER_SIZE < length p_big \<and>
   fst (tun_to_sock ev_ex w_send_big) = Continue \<and>
   sock_out (snd (tun_to_sock ev_ex w_send_big)) =
     htons (word_of_nat BUFFER_SIZE) @ map (\<lambda>b. b XOR XOR_KEY) (take BUFFER_SIZE p_big)"
proof -
  have h1: "tun_in w_send = TunPkt [1, 2, 3] # []" "length [1, 2, 3 :: byte] \<le> BUFFER_SIZE"
    by (simp_all add: w_send_def w_ex_def BUFFER_SIZE_def)
  have run1: "tun_to_sock ev_ex w_send =
     (Continue, w_send\<lparr>buffer := [0x43, 0x40, 0x41] @ replicate 2045 0, tun_in := [],
        sock_out := [0, 3, 0x43, 0x40, 0x41],
        log := [Read TunFd 2048 3, Write SockFd 2 2, Write SockFd 3 3]\<rparr>)"
    by (simp add: tun_to_sock_def read_tun_def send_frame_def write_sock_def Let_def
        w_send_def w_ex_def ev_ex_def BUFFER_SIZE_def xor_crypt_eq htons_def XOR_KEY_def)
  from tun_to_sock_encodes [OF h1(1) run1] h1(2)
  have v1: "be16_value (htons (word_of_nat (length [1, 2, 3 :: byte]))) = length [1, 2, 3 :: byte]"
    by blast
  have h2: "tun_in w_send_big = TunPkt p_big # []" "BUFFER_SIZE < length p_big"
    by (simp_all add: w_send_big_def w_ex_def p_big_def BUFFER_SIZE_def)
  have ok: "write_len_ok ev_ex" "write_data_ok ev_ex" by (simp_all add: ev_ex_def)
  obtain st w' where run2: "tun_to_sock ev_ex w_send_big = (st, w')"
    by (cases "tun_to_sock ev_ex w_send_big")
  from tun_to_sock_encodes [OF h2(1) run2] ok h2(2)
  have "st = Continue" "sock_out w' = sock_out w_send_big @ htons (word_of_nat BUFFER_SIZE)
                       @ map (\<lambda>b. b XOR XOR_KEY) (take BUFFER_SIZE p_big)"
    by blast+
  with run2 h1 run1 v1 h2 show ?thesis
    by (simp add: w_send_big_def w_ex_def)
qed

text \<open>
  For a packet of 2049 bytes, within the 65535 bytes a length prefix can
  declare, the frame sent declares 2048 bytes and carries 2048 bytes.
\<close>

theorem encode_cut_counterexample:
  "length p_big \<le> 65535 \<and>
   fst (tun_to_sock ev_ex w_send_big) = Continue \<and>
   sock_out (snd (tun_to_sock ev_ex w_send_big)) = [8, 0] @ replicate 2048 0x42 \<and>
   be16_value [8, 0] = 2048 \<and> be16_value [8, 0] \<noteq> length p_big \<and>
   length (replicate 2048 (0x42 :: byte)) \<noteq> length p_big"
proof -
  have d: "replicate 2048 (0::byte) = take BUFFER_SIZE p_big"
    by (simp add: p_big_def BUFFER_SIZE_def)
  have t: "tun_in w_send_big = TunPkt p_big # []" "write_len_ok ev_ex" "write_data_ok ev_ex"
    by (simp_all add: w_send_big_def w_ex_def ev_ex_def)
  note s = tun_to_sock_Continue [OF t d]
  show ?thesis
    using s by (simp add: p_big_def w_send_big_def w_ex_def XOR_KEY_def htons_def be16_value_def)
qed

subsection \<open>Order of delivery\<close>

lemma out_done_part: "out_done w w' cs \<Longrightarrow> out_part w w' cs"
  by (simp add: out_done_def out_part_def)

lemma out_done_trans: "out_done w w1 c1 \<Longrightarrow> out_done w1 w' c2 \<Longrightarrow> out_done w w' (c1 @ c2)"
  by (simp add: out_done_def)

lemma out_part_trans: "out_done w w1 c1 \<Longrightarrow> out_part w1 w' c2 \<Longrightarrow> out_part w w' (c1 @ c2)"
  by (simp add: out_done_def out_part_def)

lemma take_xor_crypt:
  "take (length d) (xor_crypt (d @ rest) (int (length d)) k) = map (\<lambda>b. b XOR k) d"
  by (simp add: xor_crypt_eq)

lemma tun_to_sock_out:
  assumes "tun_in w = e # rest" "tun_to_sock ev w = (st, w')"
  shows "out_part w w' [e] \<and> (\<not> send_failed st \<longrightarrow> out_done w w' [e])"
proof (cases e)
  case TunErr
  then show ?thesis using assms
    by (auto simp: tun_to_sock_def read_tun_def out_part_def out_done_def)
next
  case (TunPkt p)
  define d where "d = take BUFFER_SIZE p"
  let ?w1 = "w\<lparr>buffer := d @ drop (length d) (buffer w), tun_in := rest,
        log := log w @ [Read TunFd BUFFER_SIZE (int (length d))]\<rparr>"
  have r: "read_tun w = (int (length d), ?w1)"
    using assms(1) TunPkt by (simp add: read_tun_def Let_def d_def)
  have s: "send_frame ev (int (length d)) ?w1 = (st, w')"
    using assms(2) r by (simp add: tun_to_sock_def)
  have f: "frame_of e = htons (word_of_nat (length d)) @ map (\<lambda>b. b XOR XOR_KEY) d"
    "calls_of e = [Read TunFd BUFFER_SIZE (int (length d)), Write SockFd 2 2,
                   Write SockFd (length d) (int (length d))]"
    using TunPkt by (simp_all add: d_def Let_def)
  note x = take_xor_crypt [of d "drop (length d) (buffer w)" XOR_KEY]
  show ?thesis
    using s x assms(1) f
    by (auto simp: send_frame_def write_sock_def Let_def out_part_def out_done_def
        send_failed_def length_htons split: if_splits)
qed

lemma read_sock_fields:
  "read_sock c w = (n, d, w') \<Longrightarrow>
     tun_in w' = tun_in w \<and> sock_out w' = sock_out w \<and> tun_out w' = tun_out w \<and>
     buffer w' = buffer w \<and> log w' = log w @ [Read SockFd c n]"
  by (auto simp: read_sock_def split: if_splits list.splits sock_ev.splits)

lemma sock_to_tun_out:
  assumes "sock_to_tun ev w = (st, w')"
  shows "\<not> send_failed st \<and> out_done w w' []"
proof -
  obtain n1 hdr w1 where r1: "read_sock 2 w = (n1, hdr, w1)" by (cases "read_sock 2 w") auto
  note f1 = read_sock_fields [OF r1]
  show ?thesis
  proof (cases "n1 \<le> 0")
    case True
    then show ?thesis using assms r1 f1
      by (auto simp: sock_to_tun_def send_failed_def out_done_def)
  next
    case False
    obtain n2 dat w2 where r2: "read_sock (unat (ntohs (take 2 (hdr @ [junk ev])))) w1 = (n2, dat, w2)"
      by (cases "read_sock (unat (ntohs (take 2 (hdr @ [junk ev])))) w1") auto
    note f2 = read_sock_fields [OF r2]
    from assms r1 r2 False f1 f2 show ?thesis
      by (auto simp: sock_to_tun_def Let_def write_tun_def send_failed_def out_done_def
          split: if_splits)
  qed
qed


lemma out_done_log_only:
  "\<not> outbound e \<Longrightarrow> out_done w (w\<lparr>log := log w @ [e]\<rparr>) []"
  by (simp add: out_done_def)

lemma loop_iteration_out:
  assumes "loop_iteration ev w = (st, w')"
  shows "\<exists>cs. out_part w w' cs \<and> (\<not> send_failed st \<longrightarrow> out_done w w' cs)"
proof -
  let ?w0 = "w\<lparr>log := log w @ [Select (select_ret ev)]\<rparr>"
  have d0: "out_done w ?w0 []" by (rule out_done_log_only) simp
  show ?thesis
  proof (cases "select_ret ev < 0")
    case True
    then have "st = Break SelectFailed" "w' = ?w0"
      using assms by (auto simp: loop_iteration_def Let_def)
    then show ?thesis using d0 out_done_part by blast
  next
    case False
    obtain st1 w1 where t: "(if tun_isset ev \<and> tun_in ?w0 \<noteq> [] then tun_to_sock ev ?w0
                            else (Continue, ?w0)) = (st1, w1)"
      by (cases "if tun_isset ev \<and> tun_in ?w0 \<noteq> [] then tun_to_sock ev ?w0 else (Continue, ?w0)")
    have rest: "(st, w') = (if st1 \<noteq> Continue then (st1, w1)
               else if sock_isset ev then sock_to_tun ev w1 else (Continue, w1))"
      using assms False t by (simp add: loop_iteration_def Let_def)
    have "\<exists>c1. out_part ?w0 w1 c1 \<and> (\<not> send_failed st1 \<longrightarrow> out_done ?w0 w1 c1)"
    proof (cases "tun_isset ev \<and> tun_in ?w0 \<noteq> []")
      case True
      then obtain e rest_t where e: "tun_in ?w0 = e # rest_t" by (cases "tun_in ?w0") auto
      from True t have "tun_to_sock ev ?w0 = (st1, w1)" by simp
      from tun_to_sock_out [OF e this] show ?thesis by blast
    next
      case False
      then have "st1 = Continue" "w1 = ?w0" using t by auto
      then have "out_done ?w0 w1 []" by (simp add: out_done_def)
      then show ?thesis using out_done_part by blast
    qed
    then obtain c1 where c1: "out_part ?w0 w1 c1" "\<not> send_failed st1 \<Longrightarrow> out_done ?w0 w1 c1"
      by blast
    show ?thesis
    proof (cases "st1 = Continue \<and> sock_isset ev")
      case True
      then have "sock_to_tun ev w1 = (st, w')" using rest by simp
      from sock_to_tun_out [OF this] have s: "\<not> send_failed st" "out_done w1 w' []" by simp_all
      have "out_done ?w0 w1 c1" using c1(2) True by (simp add: send_failed_def)
      then have "out_done w w' (([] @ c1) @ [])"
        using d0 s(2) by (blast intro: out_done_trans)
      then show ?thesis using out_done_part by auto
    next
      case False
      then have eq: "st = st1" "w' = w1" using rest by (auto split: if_splits)
      have "out_part w w' ([] @ c1)" using c1(1) d0 eq by (blast intro: out_part_trans)
      moreover have "\<not> send_failed st \<Longrightarrow> out_done w w' ([] @ c1)"
        using c1(2) d0 eq by (blast intro: out_done_trans)
      ultimately show ?thesis by blast
    qed
  qed
qed

text \<open>
  The direction interface to transport, in every run of the loop: the events
  taken from the interface are a prefix \<open>consumed\<close> of its queue, and what was
  written to the transport is the concatenation of their frames in that order,
  one frame per packet; only when the loop was left on a failed write of a
  frame is the last frame cut short. In the call log the calls of this
  direction are, packet after packet, the read and the two complete writes of
  its frame, so a frame is written in full before the next read of the
  interface.
\<close>

lemma outbound_order:
  assumes "vpn_event_loop evs w = (st, w')"
  shows "\<exists>consumed. tun_in w = consumed @ tun_in w' \<and>
      prefix (sock_out w') (sock_out w @ concat (map frame_of consumed)) \<and>
      (\<not> send_failed st \<longrightarrow>
         sock_out w' = sock_out w @ concat (map frame_of consumed) \<and>
         filter outbound (log w') = filter outbound (log w) @ concat (map calls_of consumed))"
proof -
  have "\<exists>cs. out_part w w' cs \<and> (\<not> send_failed st \<longrightarrow> out_done w w' cs)"
    using assms
  proof (induction evs arbitrary: w)
    case Nil
    then have "out_done w w' []" "st = Continue" by (simp_all add: out_done_def)
    then show ?case using out_done_part by blast
  next
    case (Cons ev evs)
    obtain st1 w1 where it: "loop_iteration ev w = (st1, w1)" by (cases "loop_iteration ev w")
    from loop_iteration_out [OF it] obtain c1 where
      c1: "out_part w w1 c1" "\<not> send_failed st1 \<Longrightarrow> out_done w w1 c1" by blast
    show ?case
    proof (cases "st1 = Continue")
      case True
      then have "vpn_event_loop evs w1 = (st, w')" using Cons.prems it by simp
      from Cons.IH [OF this] obtain c2 where
        c2: "out_part w1 w' c2" "\<not> send_failed st \<Longrightarrow> out_done w1 w' c2" by blast
      have d1: "out_done w w1 c1" using c1(2) True by (simp add: send_failed_def)
      have "out_part w w' (c1 @ c2)" using d1 c2(1) by (rule out_part_trans)
      moreover have "\<not> send_failed st \<Longrightarrow> out_done w w' (c1 @ c2)"
        using d1 c2(2) by (blast intro: out_done_trans)
      ultimately show ?thesis by blast
    next
      case False
      then have "st = st1" "w' = w1" using Cons.prems it by (cases st1; auto)+
      then show ?thesis using c1 by blast
    qed
  qed
  then show ?thesis by (auto simp: out_part_def out_done_def)
qed

text \<open>
  C7 (the code at a failing input). The peer sends the packets 1, 2, 3, 4 and 1
  as two frames, and the first frame arrives split after its second payload
  byte. The loop writes to the interface a 2-byte packet and then a 3-byte
  packet made of the rest of the first frame's payload taken as a prefix and of
  the whole second frame taken as payload: neither packet read from the
  transport is delivered.
\<close>

theorem split_frames_garbled:
  "vpn_event_loop [ev_sock, ev_sock] w_split =
     (Continue, w_split\<lparr>buffer := [0x42, 0x43, 1] @ replicate 2045 0, sock_in := [],
        tun_out := [[1, 2], [0x42, 0x43, 1]],
        log := [Select 1, Read SockFd 2 2, Read SockFd 4 2, Write TunFd 2 2,
                Select 1, Read SockFd 2 2, Read SockFd 16710 3, Write TunFd 3 3]\<rparr>)"
  by (simp add: w_split_def w_ex_def ev_sock_def ev_ex_def loop_iteration_def sock_to_tun_def
      read_sock_def write_tun_def Let_def ntohs_def BUFFER_SIZE_def xor_crypt_eq XOR_KEY_def)

end
